theory Spec2Isabelle
  imports Main
begin

section \<open>The 2048 engine: data model\<close>

text \<open>
  The engine is the class \<open>Game2048\<close>. Its fields become a record, its methods become
  functions that take the record and return the updated one. Tile values are JavaScript
  numbers that the engine only ever sets to 0, 2, 4 or the double of a tile, so they are
  modelled as integers (doubles are exact on the integers up to \<open>2 ^ 53\<close>; a
  \<open>4 \<times> 4\<close> game stays far below). The callbacks \<open>onUpdate\<close>, \<open>onWin\<close> and \<open>onGameOver\<close> and
  the audio of \<open>playSound\<close> are effects outside the engine: the model records each call in
  an event log, and a callback field is modelled by whether a handler is installed
  (the handlers are taken not to call back into the engine).
  The field \<open>animationsEnabled\<close> is never read by the engine and is left out.
\<close>

type_synonym grid = "int list list"

datatype direction = Left | Right | Up | Down

datatype error = TypeError

record snapshot =
  snap_grid :: grid
  snap_score :: int

record merged =
  m_row :: nat
  m_value :: int

datatype sound = SndMove | SndMerge

datatype update_info = InfoMerged "merged list" | InfoUndo

datatype event =
    PlaySound sound
  | OnUpdate grid int update_info
  | OnWin
  | OnGameOver int

record game =
  gsize :: nat
  grid :: grid
  score :: int
  moved :: bool
  won :: bool
  over :: bool
  history :: "snapshot list"
  maxHistorySize :: nat
  soundEnabled :: bool
  onUpdate :: bool
  onWin :: bool
  onGameOver :: bool

text \<open>
  The two calls of \<open>Math.random()\<close> in \<open>addRandomTile\<close> are the only source of
  nondeterminism. They are passed in: the first component stands for the index
  \<open>Math.floor(Math.random() * emptyCells.length)\<close> (any natural number, reduced modulo the
  number of empty cells, so every index can be chosen), the second for the outcome of the
  test \<open>Math.random() < 0.9\<close>.
\<close>

type_synonym rnd = "nat \<times> bool"

section \<open>History\<close>

text \<open>\<open>saveState\<close>: the rows are copied, so the snapshot is a value of its own.\<close>

definition saveState :: "game \<Rightarrow> game" where
  "saveState st =
     (let h = history st @ [\<lparr>snap_grid = grid st, snap_score = score st\<rparr>]
      in st\<lparr>history := (if length h > maxHistorySize st then tl h else h)\<rparr>)"

definition undo :: "game \<Rightarrow> bool \<times> game \<times> event list" where
  "undo st =
     (if history st = [] then (False, st, [])
      else
        let state = last (history st);
            st1 = st\<lparr>history := butlast (history st),
                     grid := snap_grid state,
                     score := snap_score state,
                     over := False\<rparr>
        in (True, st1,
            if onUpdate st1 then [OnUpdate (grid st1) (score st1) InfoUndo] else []))"

section \<open>Spawning a tile\<close>

text \<open>
  Reads \<open>this.grid[i][j]\<close> with \<open>i, j < this.size\<close>. On a grid that is not
  \<open>size \<times> size\<close> the source reads \<open>undefined\<close> or throws; the model is meant for
  well-formed states (\<open>game_ok\<close> below, which every operation preserves).
\<close>

definition emptyCells :: "nat \<Rightarrow> grid \<Rightarrow> (nat \<times> nat) list" where
  "emptyCells n g = [(i, j). i \<leftarrow> [0..<n], j \<leftarrow> [0..<n], g ! i ! j = 0]"

definition addRandomTile :: "rnd \<Rightarrow> game \<Rightarrow> game" where
  "addRandomTile r st =
     (let cells = emptyCells (gsize st) (grid st) in
      if length cells = 0 then st
      else
        (case cells ! (fst r mod length cells) of
           (row, col) \<Rightarrow>
             st\<lparr>grid := (grid st)[row := (grid st ! row)[col := (if snd r then 2 else 4)]]\<rparr>))"

definition init :: "rnd \<Rightarrow> rnd \<Rightarrow> game \<Rightarrow> game" where
  "init r1 r2 st =
     addRandomTile r2 (addRandomTile r1
       (st\<lparr>grid := replicate (gsize st) (replicate (gsize st) 0),
           score := 0, won := False, over := False\<rparr>))"

text \<open>The constructor: the field initialisers, then \<open>init()\<close>.\<close>

definition new_game :: "rnd \<Rightarrow> rnd \<Rightarrow> game" where
  "new_game r1 r2 =
     init r1 r2
       \<lparr>gsize = 4, grid = [], score = 0, moved = False, won = False, over = False,
        history = [], maxHistorySize = 1, soundEnabled = True,
        onUpdate = False, onWin = False, onGameOver = False\<rparr>"

section \<open>Orientation\<close>

text \<open>
  \<open>transpose\<close> maps over \<open>grid[0]\<close>: on an empty grid \<open>grid[0]\<close> is \<open>undefined\<close>
  and the call throws a TypeError. Rows are read at the column indices of the first row.
\<close>

fun transpose_grid :: "grid \<Rightarrow> error + grid" where
  "transpose_grid [] = Inl TypeError"
| "transpose_grid (r0 # rs) =
     Inr (map (\<lambda>colIndex. map (\<lambda>row. row ! colIndex) (r0 # rs)) [0..<length r0])"

text \<open>The parameter \<open>reverse\<close> is accepted and never read.\<close>

fun rotateGrid :: "grid \<Rightarrow> direction \<Rightarrow> bool \<Rightarrow> error + grid" where
  "rotateGrid g Left reverse = Inr g"
| "rotateGrid g Right reverse = Inr (map (\<lambda>row. rev row) g)"
| "rotateGrid g Up reverse = transpose_grid g"
| "rotateGrid g Down reverse =
     (case transpose_grid g of
        Inl e \<Rightarrow> Inl e
      | Inr t \<Rightarrow> Inr (map (\<lambda>row. rev row) t))"

section \<open>Compaction and merging\<close>

text \<open>
  The \<open>for\<close> loop over \<open>nonZero\<close>. The index advances by two after a merge. The
  variables \<open>score\<close>, \<open>merged\<close> and \<open>this.moved\<close> live outside the loop and outside the
  row callback, so they are threaded through as accumulators.
\<close>

function mergeLoop ::
  "nat \<Rightarrow> int list \<Rightarrow> nat \<Rightarrow> int list \<times> int \<times> merged list \<times> bool
     \<Rightarrow> int list \<times> int \<times> merged list \<times> bool" where
  "mergeLoop rowIndex nonZero i (newRow, sc, mg, mv) =
     (if i < length nonZero then
        (if i < length nonZero - 1 \<and> nonZero ! i = nonZero ! (i + 1) then
           (let mergedValue = nonZero ! i * 2 in
            mergeLoop rowIndex nonZero (i + 2)
              (newRow @ [mergedValue], sc + mergedValue,
               mg @ [\<lparr>m_row = rowIndex, m_value = mergedValue\<rparr>], True))
         else mergeLoop rowIndex nonZero (i + 1) (newRow @ [nonZero ! i], sc, mg, mv))
      else (newRow, sc, mg, mv))"
  by pat_completeness auto
termination
  by (relation "measure (\<lambda>(rowIndex, nonZero, i, acc). length nonZero - i)") auto

declare mergeLoop.simps [simp del]

text \<open>
  The body of the row callback of \<open>grid.map\<close>: filter, merge, pad with zeros up to
  \<open>this.size\<close>, compare with the old row.
\<close>

definition moveRow ::
  "nat \<Rightarrow> nat \<Rightarrow> int list \<Rightarrow> int \<times> merged list \<times> bool
     \<Rightarrow> int list \<times> int \<times> merged list \<times> bool" where
  "moveRow n rowIndex row acc =
     (case acc of (sc, mg, mv) \<Rightarrow>
        (case mergeLoop rowIndex (filter (\<lambda>val. val \<noteq> 0) row) 0 ([], sc, mg, mv) of
           (newRow, sc', mg', mv') \<Rightarrow>
             (let padded = newRow @ replicate (n - length newRow) 0
              in (padded, sc', mg', (if row \<noteq> padded then True else mv')))))"

fun moveRows ::
  "nat \<Rightarrow> nat \<Rightarrow> grid \<Rightarrow> int \<times> merged list \<times> bool
     \<Rightarrow> grid \<times> int \<times> merged list \<times> bool" where
  "moveRows n rowIndex [] acc = ([], acc)"
| "moveRows n rowIndex (row # rows) acc =
     (case moveRow n rowIndex row acc of
        (newRow, acc') \<Rightarrow>
          (case moveRows n (rowIndex + 1) rows acc' of
             (rest, acc'') \<Rightarrow> (newRow # rest, acc'')))"

text \<open>
  \<open>moveLeft\<close> returns \<open>{grid, score, merged}\<close> and sets \<open>this.moved\<close>; the model takes
  the flag on entry and returns it as a fourth component.
\<close>

definition moveLeft :: "nat \<Rightarrow> bool \<Rightarrow> grid \<Rightarrow> grid \<times> int \<times> merged list \<times> bool" where
  "moveLeft n mv g = moveRows n 0 g (0, [], mv)"

section \<open>Status\<close>

definition hasValue :: "grid \<Rightarrow> int \<Rightarrow> bool" where
  "hasValue g v = list_ex (\<lambda>row. v \<in> set row) g"

text \<open>
  The two nested loops of \<open>isGameOver\<close>; \<open>False\<close> from the inner loop is the early
  \<open>return false\<close>.
\<close>

function gameOverCols :: "nat \<Rightarrow> grid \<Rightarrow> nat \<Rightarrow> nat \<Rightarrow> bool" where
  "gameOverCols n g i j =
     (if j < n then
        (if j < n - 1 \<and> g ! i ! j = g ! i ! (j + 1) then False
         else if i < n - 1 \<and> g ! i ! j = g ! (i + 1) ! j then False
         else gameOverCols n g i (j + 1))
      else True)"
  by pat_completeness auto
termination
  by (relation "measure (\<lambda>(n, g, i, j). n - j)") auto

declare gameOverCols.simps [simp del]

function gameOverRows :: "nat \<Rightarrow> grid \<Rightarrow> nat \<Rightarrow> bool" where
  "gameOverRows n g i =
     (if i < n then
        (if gameOverCols n g i 0 then gameOverRows n g (i + 1) else False)
      else True)"
  by pat_completeness auto
termination
  by (relation "measure (\<lambda>(n, g, i). n - i)") auto

declare gameOverRows.simps [simp del]

definition isGameOver :: "nat \<Rightarrow> grid \<Rightarrow> bool" where
  "isGameOver n g =
     (if list_ex (\<lambda>row. 0 \<in> set row) g then False else gameOverRows n g 0)"

section \<open>A move\<close>

definition playSound :: "game \<Rightarrow> sound \<Rightarrow> event list" where
  "playSound st s = (if soundEnabled st then [PlaySound s] else [])"

text \<open>The block guarded by \<open>if (this.moved)\<close>.\<close>

definition move_commit :: "rnd \<Rightarrow> merged list \<Rightarrow> game \<Rightarrow> game \<times> event list" where
  "move_commit r mg st =
     (let st1 = addRandomTile r st;
          ev1 = playSound st1 SndMove;
          ev2 = (if onUpdate st1 then [OnUpdate (grid st1) (score st1) (InfoMerged mg)] else []);
          wins = (\<not> won st1 \<and> hasValue (grid st1) 2048);
          st2 = (if wins then st1\<lparr>won := True\<rparr> else st1);
          ev3 = (if wins \<and> onWin st1 then [OnWin] else []);
          loses = isGameOver (gsize st2) (grid st2);
          st3 = (if loses then st2\<lparr>over := True\<rparr> else st2);
          ev4 = (if loses \<and> onGameOver st2 then [OnGameOver (score st2)] else [])
      in (st3, ev1 @ ev2 @ ev3 @ ev4))"

text \<open>
  \<open>move\<close> returns \<open>undefined\<close> when the game is over (the result \<open>None\<close>) and
  \<open>this.moved\<close> otherwise. A TypeError of \<open>rotateGrid\<close> leaves the method.
\<close>

definition move :: "direction \<Rightarrow> rnd \<Rightarrow> game \<Rightarrow> error + (bool option \<times> game \<times> event list)" where
  "move direction r st =
     (if over st then Inr (None, st, [])
      else
        let st1 = (saveState st)\<lparr>moved := False\<rparr> in
        (case rotateGrid (grid st1) direction False of
           Inl e \<Rightarrow> Inl e
         | Inr rotatedGrid \<Rightarrow>
             (case moveLeft (gsize st1) (moved st1) rotatedGrid of
                (movedGrid, addedScore, mg, mv) \<Rightarrow>
                  (case rotateGrid movedGrid direction True of
                     Inl e \<Rightarrow> Inl e
                   | Inr g' \<Rightarrow>
                       let st2 = st1\<lparr>moved := mv, grid := g'\<rparr>;
                           st3 = (if addedScore > 0 then st2\<lparr>score := score st2 + addedScore\<rparr> else st2);
                           ev0 = (if addedScore > 0 then playSound st2 SndMerge else [])
                       in if moved st3 then
                            (case move_commit r mg st3 of
                               (st4, evs) \<Rightarrow> Inr (Some True, st4, ev0 @ evs))
                          else Inr (Some False, st3, ev0)))))"

section \<open>Sessions\<close>

text \<open>
  The calls a caller makes between two initialisations, each \<open>move\<close> with the draws of
  its spawn. \<open>run\<close> performs them in order and collects the events; a TypeError ends it.
\<close>

datatype op = Move direction rnd | Undo

fun run :: "op list \<Rightarrow> game \<Rightarrow> error + (game \<times> event list)" where
  "run [] st = Inr (st, [])"
| "run (Move d r # ops) st =
     (case move d r st of
        Inl e \<Rightarrow> Inl e
      | Inr (res, st1, evs) \<Rightarrow>
          (case run ops st1 of
             Inl e \<Rightarrow> Inl e
           | Inr (st2, evs2) \<Rightarrow> Inr (st2, evs @ evs2)))"
| "run (Undo # ops) st =
     (case undo st of
        (res, st1, evs) \<Rightarrow>
          (case run ops st1 of
             Inl e \<Rightarrow> Inl e
           | Inr (st2, evs2) \<Rightarrow> Inr (st2, evs @ evs2)))"

section \<open>Well-formed grids and the grid properties of the specification\<close>

text \<open>
  A grid of the engine is \<open>size \<times> size\<close>. The two properties that decide a loss: some
  cell is empty, and some cell equals its right or lower neighbour.
\<close>

definition wf_grid :: "nat \<Rightarrow> grid \<Rightarrow> bool" where
  "wf_grid n g = (length g = n \<and> list_all (\<lambda>row. length row = n) g)"

definition has_empty_cell :: "grid \<Rightarrow> bool" where
  "has_empty_cell g = (\<exists>row \<in> set g. \<exists>v \<in> set row. v = 0)"

definition has_equal_neighbours :: "nat \<Rightarrow> grid \<Rightarrow> bool" where
  "has_equal_neighbours n g =
     ((\<exists>i \<in> {0..<n}. \<exists>j \<in> {0..<n}. j + 1 < n \<and> g ! i ! j = g ! i ! (j + 1)) \<or>
      (\<exists>i \<in> {0..<n}. \<exists>j \<in> {0..<n}. i + 1 < n \<and> g ! i ! j = g ! (i + 1) ! j))"

text \<open>
  Invariants. \<open>grid_all P\<close>: every cell satisfies \<open>P\<close>. \<open>tile_closed P\<close>: \<open>P\<close> holds of
  the values the engine writes (0, 2, 4, and the double of a non-zero tile). \<open>hist_ok\<close>:
  the size is positive and every stored snapshot is a \<open>size \<times> size\<close> grid of cells
  satisfying \<open>P\<close>; \<open>game_ok\<close>: the same of the live grid as well. \<open>tile_value\<close>: the
  value is 0 or a power of two that is at least 2.
\<close>

definition grid_all :: "(int \<Rightarrow> bool) \<Rightarrow> grid \<Rightarrow> bool" where
  "grid_all P g = list_all (list_all P) g"

definition tile_closed :: "(int \<Rightarrow> bool) \<Rightarrow> bool" where
  "tile_closed P = (P 0 \<and> P 2 \<and> P 4 \<and> (\<forall>x. P x \<longrightarrow> x \<noteq> 0 \<longrightarrow> P (x * 2)))"

definition hist_ok :: "(int \<Rightarrow> bool) \<Rightarrow> game \<Rightarrow> bool" where
  "hist_ok P st =
     (0 < gsize st \<and>
      list_all (\<lambda>s. wf_grid (gsize st) (snap_grid s) \<and> grid_all P (snap_grid s)) (history st))"

definition game_ok :: "(int \<Rightarrow> bool) \<Rightarrow> game \<Rightarrow> bool" where
  "game_ok P st = (hist_ok P st \<and> wf_grid (gsize st) (grid st) \<and> grid_all P (grid st))"

definition tile_value :: "int \<Rightarrow> bool" where
  "tile_value v = (v = 0 \<or> (\<exists>k. 1 \<le> k \<and> v = 2 ^ k))"

text \<open>The number of tiles (non-zero cells) of a grid.\<close>

definition tile_count :: "grid \<Rightarrow> nat" where
  "tile_count g = length (filter (\<lambda>v. v \<noteq> 0) (concat g))"

text \<open>
  The score of a move as the specification words it (Move Resolver, step 2), written
  without reference to the code: in every row, drop the zeros, scan the values from the
  left, and whenever two neighbours are equal add the value of the tile they merge into,
  twice the value, and step past both; otherwise step past one.
\<close>

fun spec_gain :: "int list \<Rightarrow> int" where
  "spec_gain (x # y # xs) = (if x = y then 2 * x + spec_gain xs else spec_gain (y # xs))"
| "spec_gain xs = 0"

definition spec_score_delta :: "grid \<Rightarrow> int" where
  "spec_score_delta g = sum_list (map (\<lambda>row. spec_gain (filter (\<lambda>v. v \<noteq> 0) row)) g)"

text \<open>
  JavaScript numbers are doubles, exact on the integers up to \<open>2 ^ 53\<close>. The score
  arithmetic of a move is the integer arithmetic of the model when the cells and the
  score are not negative and the score plus all cells stays within that range.
\<close>

definition safe_numbers :: "game \<Rightarrow> bool" where
  "safe_numbers st =
     (0 \<le> score st \<and> grid_all (\<lambda>v. 0 \<le> v) (grid st) \<and>
      score st + sum_list (concat (grid st)) \<le> 2 ^ 53)"

section \<open>The loops as list functions\<close>

text \<open>
  Auxiliary functions for the proofs: what the \<open>for\<close> loop of \<open>moveLeft\<close> leaves in
  \<open>newRow\<close> and what it adds to \<open>merged\<close>, by recursion on the list of non-zero
  values. \<open>mergeLoop_eq\<close> below proves that the loop computes them.
\<close>

fun merged_row :: "int list \<Rightarrow> int list" where
  "merged_row (x # y # xs) = (if x = y then (x * 2) # merged_row xs else x # merged_row (y # xs))"
| "merged_row xs = xs"

fun merged_values :: "int list \<Rightarrow> int list" where
  "merged_values (x # y # xs) = (if x = y then (x * 2) # merged_values xs else merged_values (y # xs))"
| "merged_values xs = []"

definition slide_row :: "nat \<Rightarrow> int list \<Rightarrow> int list" where
  "slide_row n row =
     (let newRow = merged_row (filter (\<lambda>val. val \<noteq> 0) row)
      in newRow @ replicate (n - length newRow) 0)"

fun merged_entries :: "nat \<Rightarrow> grid \<Rightarrow> merged list" where
  "merged_entries ri [] = []"
| "merged_entries ri (row # rows) =
     map (\<lambda>v. \<lparr>m_row = ri, m_value = v\<rparr>) (merged_values (filter (\<lambda>val. val \<noteq> 0) row))
       @ merged_entries (ri + 1) rows"

text \<open>
  Auxiliary: the engine state when \<open>move\<close> reaches the test \<open>if (this.moved)\<close>, given
  the rotated grid \<open>rg\<close> and the grid \<open>g'\<close> rotated back, and the sound of the merges.
\<close>

definition staged :: "game \<Rightarrow> grid \<Rightarrow> grid \<Rightarrow> game" where
  "staged st rg g' =
     (let st2 = (saveState st)\<lparr>
            moved := ((\<exists>row \<in> set rg. row \<noteq> slide_row (gsize st) row)
                      \<or> merged_entries 0 rg \<noteq> []),
            grid := g'\<rparr>
      in if 0 < sum_list (map m_value (merged_entries 0 rg))
         then st2\<lparr>score := score st2 + sum_list (map m_value (merged_entries 0 rg))\<rparr>
         else st2)"

definition merge_sound :: "game \<Rightarrow> grid \<Rightarrow> event list" where
  "merge_sound st rg =
     (if 0 < sum_list (map m_value (merged_entries 0 rg)) then playSound st SndMerge else [])"

section \<open>Concrete states used in the examples\<close>

text \<open>
  \<open>blank\<close> is the object as the field initialisers of the constructor leave it, with the
  three handlers installed; the other states put a grid and a score into it.
\<close>

definition blank :: game where
  "blank =
     \<lparr>gsize = 4, grid = [], score = 0, moved = False, won = False, over = False,
      history = [], maxHistorySize = 1, soundEnabled = True,
      onUpdate = True, onWin = True, onGameOver = True\<rparr>"

definition corner_grid :: grid where
  "corner_grid = [[0,0,0,0],[0,0,0,0],[0,0,0,0],[2,0,0,0]]"

definition corner_game :: game where
  "corner_game = blank\<lparr>grid := corner_grid\<rparr>"

definition win_ready :: game where
  "win_ready = blank\<lparr>grid := [[1024,1024,0,0],[0,0,0,0],[0,0,0,0],[0,0,0,0]], score := 20000\<rparr>"

definition merge_game :: game where
  "merge_game = blank\<lparr>grid := [[2,2,4,4],[0,0,0,0],[8,0,8,0],[0,0,0,0]], score := 10\<rparr>"

definition last_gap_grid :: grid where
  "last_gap_grid = [[2,4,2,4],[4,2,4,2],[2,4,2,4],[0,4,2,4]]"

definition checker_grid :: grid where
  "checker_grid = [[2,4,2,4],[4,2,4,2],[2,4,2,4],[4,2,4,2]]"

definition last_gap_game :: game where
  "last_gap_game = blank\<lparr>grid := last_gap_grid, score := 100\<rparr>"

section \<open>The loop of moveLeft computes the list functions\<close>

lemma mergeLoop_eq:
  "i \<le> length nz \<Longrightarrow>
   mergeLoop ri nz i (nr, sc, mg, mv) =
     (nr @ merged_row (drop i nz),
      sc + sum_list (merged_values (drop i nz)),
      mg @ map (\<lambda>v. \<lparr>m_row = ri, m_value = v\<rparr>) (merged_values (drop i nz)),
      mv \<or> merged_values (drop i nz) \<noteq> [])"
proof (induction ri nz i "(nr, sc, mg, mv)" arbitrary: nr sc mg mv rule: mergeLoop.induct)
  case (1 ri nz i nr sc mg mv)
  show ?case
  proof (cases "i < length nz")
    case False
    with "1.prems" show ?thesis by (simp add: mergeLoop.simps)
  next
    case inb: True
    then have d1: "drop i nz = nz ! i # drop (Suc i) nz"
      by (simp add: Cons_nth_drop_Suc)
    show ?thesis
    proof (cases "i < length nz - 1 \<and> nz ! i = nz ! (i + 1)")
      case True
      then have "Suc i < length nz" by arith
      then have d2: "drop (Suc i) nz = nz ! Suc i # drop (Suc (Suc i)) nz"
        by (simp add: Cons_nth_drop_Suc)
      from True have same: "nz ! Suc i = nz ! i" by simp
      from True have le: "i + 2 \<le> length nz" by arith
      have d: "drop i nz = nz ! i # nz ! i # drop (Suc (Suc i)) nz"
        using d2 by (simp add: d1 same)
      have "mergeLoop ri nz i (nr, sc, mg, mv) =
            mergeLoop ri nz (i + 2)
              (nr @ [nz ! i * 2], sc + nz ! i * 2,
               mg @ [\<lparr>m_row = ri, m_value = nz ! i * 2\<rparr>], True)"
        using inb True by (subst mergeLoop.simps) (simp add: Let_def)
      also have "\<dots> = (nr @ merged_row (drop i nz),
          sc + sum_list (merged_values (drop i nz)),
          mg @ map (\<lambda>v. \<lparr>m_row = ri, m_value = v\<rparr>) (merged_values (drop i nz)),
          mv \<or> merged_values (drop i nz) \<noteq> [])"
        using "1.hyps"(1)[OF inb True refl le] by (simp add: d)
      finally show ?thesis .
    next
      case False
      have le: "i + 1 \<le> length nz" using inb by simp
      have "mergeLoop ri nz i (nr, sc, mg, mv) =
            mergeLoop ri nz (i + 1) (nr @ [nz ! i], sc, mg, mv)"
        using inb False by (subst mergeLoop.simps) auto
      also have "\<dots> = (nr @ merged_row (drop i nz),
          sc + sum_list (merged_values (drop i nz)),
          mg @ map (\<lambda>v. \<lparr>m_row = ri, m_value = v\<rparr>) (merged_values (drop i nz)),
          mv \<or> merged_values (drop i nz) \<noteq> [])"
      proof (cases "Suc i < length nz")
        case True
        then have d2: "drop (Suc i) nz = nz ! Suc i # drop (Suc (Suc i)) nz"
          by (simp add: Cons_nth_drop_Suc)
        from True False have ne: "nz ! i \<noteq> nz ! Suc i" by simp
        have d: "drop i nz = nz ! i # nz ! Suc i # drop (Suc (Suc i)) nz"
          using d2 by (simp add: d1)
        show ?thesis
          using "1.hyps"(2)[OF inb False le] ne by (simp add: d d2)
      next
        case short: False
        then have d2: "drop (Suc i) nz = []" by simp
        show ?thesis
          using "1.hyps"(2)[OF inb False le] by (simp add: d1 d2)
      qed
      finally show ?thesis .
    qed
  qed
qed

lemma moveRow_eq:
  "moveRow n ri row (sc, mg, mv) =
     (slide_row n row,
      sc + sum_list (merged_values (filter (\<lambda>val. val \<noteq> 0) row)),
      mg @ map (\<lambda>v. \<lparr>m_row = ri, m_value = v\<rparr>) (merged_values (filter (\<lambda>val. val \<noteq> 0) row)),
      row \<noteq> slide_row n row \<or> mv \<or> merged_values (filter (\<lambda>val. val \<noteq> 0) row) \<noteq> [])"
  by (simp add: moveRow_def mergeLoop_eq slide_row_def Let_def)

lemma moveRows_eq:
  "moveRows n ri rows (sc, mg, mv) =
     (map (slide_row n) rows,
      sc + sum_list (map m_value (merged_entries ri rows)),
      mg @ merged_entries ri rows,
      mv \<or> (\<exists>row \<in> set rows. row \<noteq> slide_row n row) \<or> merged_entries ri rows \<noteq> [])"
proof (induction rows arbitrary: ri sc mg mv)
  case Nil
  show ?case by simp
next
  case (Cons row rows)
  show ?case
    by (simp add: moveRow_eq Cons.IH comp_def) blast
qed

lemma moveLeft_eq:
  "moveLeft n mv g =
     (map (slide_row n) g,
      sum_list (map m_value (merged_entries 0 g)),
      merged_entries 0 g,
      mv \<or> (\<exists>row \<in> set g. row \<noteq> slide_row n row) \<or> merged_entries 0 g \<noteq> [])"
  by (simp add: moveLeft_def moveRows_eq)

section \<open>Fields that the operations leave alone\<close>

lemma addRandomTile_fields [simp]:
  "gsize (addRandomTile r st) = gsize st"
  "score (addRandomTile r st) = score st"
  "moved (addRandomTile r st) = moved st"
  "won (addRandomTile r st) = won st"
  "over (addRandomTile r st) = over st"
  "history (addRandomTile r st) = history st"
  "maxHistorySize (addRandomTile r st) = maxHistorySize st"
  "soundEnabled (addRandomTile r st) = soundEnabled st"
  "onUpdate (addRandomTile r st) = onUpdate st"
  "onWin (addRandomTile r st) = onWin st"
  "onGameOver (addRandomTile r st) = onGameOver st"
  by (simp_all add: addRandomTile_def Let_def split: prod.splits)

lemma saveState_fields [simp]:
  "gsize (saveState st) = gsize st"
  "grid (saveState st) = grid st"
  "score (saveState st) = score st"
  "moved (saveState st) = moved st"
  "won (saveState st) = won st"
  "over (saveState st) = over st"
  "maxHistorySize (saveState st) = maxHistorySize st"
  "soundEnabled (saveState st) = soundEnabled st"
  "onUpdate (saveState st) = onUpdate st"
  "onWin (saveState st) = onWin st"
  "onGameOver (saveState st) = onGameOver st"
  by (simp_all add: saveState_def Let_def)


lemma move_commit_state:
  "fst (move_commit r mg st) =
     (addRandomTile r st)\<lparr>
        won := (won st \<or> hasValue (grid (addRandomTile r st)) 2048),
        over := (over st \<or> isGameOver (gsize st) (grid (addRandomTile r st)))\<rparr>"
  by (simp add: move_commit_def Let_def)

lemma move_commit_fields [simp]:
  "gsize (fst (move_commit r mg st)) = gsize st"
  "grid (fst (move_commit r mg st)) = grid (addRandomTile r st)"
  "score (fst (move_commit r mg st)) = score st"
  "moved (fst (move_commit r mg st)) = moved st"
  "won (fst (move_commit r mg st)) = (won st \<or> hasValue (grid (addRandomTile r st)) 2048)"
  "over (fst (move_commit r mg st)) = (over st \<or> isGameOver (gsize st) (grid (addRandomTile r st)))"
  "history (fst (move_commit r mg st)) = history st"
  "maxHistorySize (fst (move_commit r mg st)) = maxHistorySize st"
  "soundEnabled (fst (move_commit r mg st)) = soundEnabled st"
  "onUpdate (fst (move_commit r mg st)) = onUpdate st"
  "onWin (fst (move_commit r mg st)) = onWin st"
  "onGameOver (fst (move_commit r mg st)) = onGameOver st"
  by (simp_all add: move_commit_state)

lemma move_commit_events:
  "snd (move_commit r mg st) =
     playSound st SndMove
     @ (if onUpdate st then [OnUpdate (grid (addRandomTile r st)) (score st) (InfoMerged mg)] else [])
     @ (if \<not> won st \<and> hasValue (grid (addRandomTile r st)) 2048 \<and> onWin st then [OnWin] else [])
     @ (if isGameOver (gsize st) (grid (addRandomTile r st)) \<and> onGameOver st
        then [OnGameOver (score st)] else [])"
  by (simp add: move_commit_def Let_def playSound_def)


section \<open>The shape of a move\<close>

lemma staged_fields [simp]:
  "gsize (staged st rg g') = gsize st"
  "grid (staged st rg g') = g'"
  "won (staged st rg g') = won st"
  "over (staged st rg g') = over st"
  "history (staged st rg g') = history (saveState st)"
  "maxHistorySize (staged st rg g') = maxHistorySize st"
  "soundEnabled (staged st rg g') = soundEnabled st"
  "onUpdate (staged st rg g') = onUpdate st"
  "onWin (staged st rg g') = onWin st"
  "onGameOver (staged st rg g') = onGameOver st"
  by (simp_all add: staged_def Let_def)

lemma staged_moved:
  "moved (staged st rg g') =
     ((\<exists>row \<in> set rg. row \<noteq> slide_row (gsize st) row) \<or> merged_entries 0 rg \<noteq> [])"
  by (simp add: staged_def Let_def)

lemma staged_score:
  "score (staged st rg g') =
     (if 0 < sum_list (map m_value (merged_entries 0 rg))
      then score st + sum_list (map m_value (merged_entries 0 rg)) else score st)"
  by (simp add: staged_def Let_def)

lemma merge_sound_unmoved: "\<not> moved (staged st rg g') \<Longrightarrow> merge_sound st rg = []"
  by (simp add: staged_moved merge_sound_def)

lemma move_eq:
  assumes "\<not> over st"
    and "rotateGrid (grid st) d False = Inr rg"
    and "rotateGrid (map (slide_row (gsize st)) rg) d True = Inr g'"
  shows "move d r st =
      Inr (if moved (staged st rg g')
           then (Some True, fst (move_commit r (merged_entries 0 rg) (staged st rg g')),
                 merge_sound st rg @ snd (move_commit r (merged_entries 0 rg) (staged st rg g')))
           else (Some False, staged st rg g', []))"
proof -
  have ne: "merged_entries 0 rg \<noteq> []" if "0 < sum_list (map m_value (merged_entries 0 rg))"
    using that by auto
  have "move d r st =
      (if moved (staged st rg g')
       then (case move_commit r (merged_entries 0 rg) (staged st rg g') of
               (st4, evs) \<Rightarrow> Inr (Some True, st4, merge_sound st rg @ evs))
       else Inr (Some False, staged st rg g', merge_sound st rg))"
    using assms ne
    by (auto simp: move_def Let_def moveLeft_eq staged_def merge_sound_def playSound_def)
  then show ?thesis
    by (simp add: merge_sound_unmoved case_prod_beta)
qed

lemma move_SomeE:
  assumes "move d r st = Inr (Some b, st', evs)"
  obtains rg g' where
    "\<not> over st"
    "rotateGrid (grid st) d False = Inr rg"
    "rotateGrid (map (slide_row (gsize st)) rg) d True = Inr g'"
    "b = moved (staged st rg g')"
    "st' = (if b then fst (move_commit r (merged_entries 0 rg) (staged st rg g'))
            else staged st rg g')"
    "evs = (if b then merge_sound st rg @ snd (move_commit r (merged_entries 0 rg) (staged st rg g'))
            else [])"
proof -
  from assms have no: "\<not> over st"
    by (cases "over st") (simp_all add: move_def)
  from assms no obtain rg where rg: "rotateGrid (grid st) d False = Inr rg"
    by (cases "rotateGrid (grid st) d False") (simp_all add: move_def Let_def)
  from assms no rg obtain g' where
    g': "rotateGrid (map (slide_row (gsize st)) rg) d True = Inr g'"
    by (cases "rotateGrid (map (slide_row (gsize st)) rg) d True")
      (simp_all add: move_def Let_def moveLeft_eq)
  from assms show thesis
    unfolding move_eq[OF no rg g']
    by (intro that[OF no rg g']) (simp_all split: if_splits)
qed

lemma move_None:
  assumes "move d r st = Inr (None, st', evs)"
  shows "over st \<and> st' = st \<and> evs = []"
proof (cases "over st")
  case True
  with assms show ?thesis by (simp add: move_def)
next
  case False
  with assms show ?thesis
    by (simp add: move_def Let_def split: sum.splits prod.splits if_splits)
qed

lemma move_history:
  assumes "move d r st = Inr (Some b, st', evs)"
  shows "history st' = history (saveState st)"
  using assms by (rule move_SomeE) simp

lemma move_noop:
  assumes "move d r st = Inr (Some False, st', evs)"
  shows "evs = []"
  using assms by (rule move_SomeE) simp

lemma saveState_last:
  assumes "0 < maxHistorySize st"
  shows "history (saveState st) \<noteq> [] \<and>
   last (history (saveState st)) = \<lparr>snap_grid = grid st, snap_score = score st\<rparr>"
proof (cases "history st")
  case Nil
  with assms show ?thesis by (simp add: saveState_def Let_def)
next
  case (Cons s h)
  then show ?thesis by (simp add: saveState_def Let_def)
qed

section \<open>Orientation: the reverse flag\<close>

text \<open>
  C10. The flag \<open>reverse\<close> of \<open>rotateGrid\<close> has no effect: for every grid and every
  direction the call with \<open>reverse = true\<close> gives the result of the call with
  \<open>reverse = false\<close> (the same grid, or the same TypeError on an empty grid).
\<close>

theorem rotateGrid_reverse_ignored: "rotateGrid g d True = rotateGrid g d False"
  by (cases d) simp_all

text \<open>
  C1 (the code at a grid where the claim fails). With the single tile 2 in the bottom-left
  corner, the transform for Down puts the tile in the top-left corner, and the same
  transform applied again (the call with \<open>reverse = true\<close>) puts it in the top-right
  corner: the grid is turned by a half turn, not restored.
\<close>

theorem rotateGrid_down_twice_half_turn:
  "rotateGrid corner_grid Down False = Inr [[2,0,0,0],[0,0,0,0],[0,0,0,0],[0,0,0,0]] \<and>
   rotateGrid [[2,0,0,0],[0,0,0,0],[0,0,0,0],[0,0,0,0]] Down True
     = Inr [[0,0,0,2],[0,0,0,0],[0,0,0,0],[0,0,0,0]] \<and>
   [[0,0,0,2],[0,0,0,0],[0,0,0,0],[0,0,0,0]] \<noteq> corner_grid"
  by code_simp

section \<open>Moves that change nothing\<close>

text \<open>
  C2 (the code at a state where the claim fails). On the game whose only tile is a 2 in the
  bottom-left corner, \<open>move('down')\<close> finds nothing to slide and returns false; the score
  stays 0 and no tile is spawned, but the grid it leaves has the tile in the top-right
  corner.
\<close>

theorem move_down_noop_changes_grid:
  "move Down r corner_game =
     Inr (Some False,
          corner_game\<lparr>grid := [[0,0,0,2],[0,0,0,0],[0,0,0,0],[0,0,0,0]],
                      history := [\<lparr>snap_grid = corner_grid, snap_score = 0\<rparr>]\<rparr>,
          []) \<and>
   [[0,0,0,2],[0,0,0,0],[0,0,0,0],[0,0,0,0]] \<noteq> grid corner_game"
  by code_simp

section \<open>Examples of the row operation\<close>

text \<open>
  C4. With \<open>size = 4\<close>, \<open>moveLeft\<close> maps the row \<open>[2,2,2,0]\<close> to \<open>[4,2,0,0]\<close>,
  the row \<open>[4,4,4,4]\<close> to \<open>[8,8,0,0]\<close>, and the row \<open>[2,2,4,4]\<close> to \<open>[4,8,0,0]\<close>
  with a score of 12 from the two merges 4 and 8.
\<close>

theorem moveLeft_examples:
  "moveLeft 4 False [[2,2,2,0]] = ([[4,2,0,0]], 4, [\<lparr>m_row = 0, m_value = 4\<rparr>], True) \<and>
   moveLeft 4 False [[4,4,4,4]]
     = ([[8,8,0,0]], 16, [\<lparr>m_row = 0, m_value = 8\<rparr>, \<lparr>m_row = 0, m_value = 8\<rparr>], True) \<and>
   moveLeft 4 False [[2,2,4,4]]
     = ([[4,8,0,0]], 12, [\<lparr>m_row = 0, m_value = 4\<rparr>, \<lparr>m_row = 0, m_value = 8\<rparr>], True)"
  by code_simp

section \<open>History and callbacks after a move that changes nothing\<close>

text \<open>
  C3 (the claim as stated fails). On the game whose only tile is a 2 in the bottom-left
  corner and whose history is empty, \<open>move('left')\<close> changes nothing and returns false,
  no callback fires, but the history holds one snapshot afterwards: \<open>saveState\<close> runs
  before the move is computed.
\<close>

theorem move_noop_history_counterexample:
  "move Left (0, True) corner_game =
     Inr (Some False,
          corner_game\<lparr>history := [\<lparr>snap_grid = corner_grid, snap_score = 0\<rparr>]\<rparr>, []) \<and>
   history (corner_game\<lparr>history := [\<lparr>snap_grid = corner_grid, snap_score = 0\<rparr>]\<rparr>)
     \<noteq> history corner_game"
  by code_simp

text \<open>
  C3 (amended). If \<open>move(d)\<close> returns false on a game that is not over, then no callback
  fires and no sound plays, and the history afterwards is the history before with a
  snapshot of the grid and score of before the call pushed on it, the oldest entry dropped
  when the length exceeds \<open>maxHistorySize\<close>.
\<close>

theorem move_noop_history:
  assumes "move d r st = Inr (Some False, st', evs)"
  shows "evs = [] \<and>
         history st' =
           (if maxHistorySize st < length (history st) + 1
            then tl (history st @ [\<lparr>snap_grid = grid st, snap_score = score st\<rparr>])
            else history st @ [\<lparr>snap_grid = grid st, snap_score = score st\<rparr>])"
proof -
  have "history st' = history (saveState st)"
    using assms by (rule move_history)
  moreover have "evs = []"
    using assms by (rule move_noop)
  ultimately show ?thesis
    by (simp add: saveState_def Let_def)
qed

theorem move_noop_history_witness:
  "move Left (0, True) corner_game =
     Inr (Some False,
          corner_game\<lparr>history := [\<lparr>snap_grid = corner_grid, snap_score = 0\<rparr>]\<rparr>, []) \<and>
   history (corner_game\<lparr>history := [\<lparr>snap_grid = corner_grid, snap_score = 0\<rparr>]\<rparr>)
     = [\<lparr>snap_grid = grid corner_game, snap_score = score corner_game\<rparr>]"
proof -
  have h: "move Left (0, True) corner_game =
     Inr (Some False,
          corner_game\<lparr>history := [\<lparr>snap_grid = corner_grid, snap_score = 0\<rparr>]\<rparr>, [])"
    by code_simp
  have "history corner_game = []" "maxHistorySize corner_game = 1"
    by (simp_all add: corner_game_def blank_def)
  with move_noop_history[OF h] h show ?thesis by simp
qed

section \<open>Undo\<close>

text \<open>
  C6. If \<open>move(d)\<close> returns true, then \<open>undo()\<close> called next returns true and leaves
  the grid and the score of before the move, with the flag \<open>over\<close> cleared. The history
  depth \<open>maxHistorySize\<close> is at least one (the constructor sets it to 1).
\<close>

theorem undo_after_move:
  assumes "move d r st = Inr (Some True, st', evs)" and "0 < maxHistorySize st"
  shows "fst (undo st') = True \<and>
         grid (fst (snd (undo st'))) = grid st \<and>
         score (fst (snd (undo st'))) = score st \<and>
         \<not> over (fst (snd (undo st')))"
proof -
  have h: "history st' = history (saveState st)"
    using assms(1) by (rule move_history)
  from saveState_last[OF assms(2)] h show ?thesis
    by (simp add: undo_def Let_def)
qed


theorem undo_after_move_witness:
  "move Left (0, True) last_gap_game =
     Inr (Some True,
          last_gap_game\<lparr>grid := checker_grid, moved := True, over := True,
             history := [\<lparr>snap_grid = last_gap_grid, snap_score = 100\<rparr>]\<rparr>,
          [PlaySound SndMove, OnUpdate checker_grid 100 (InfoMerged []), OnGameOver 100]) \<and>
   fst (undo (last_gap_game\<lparr>grid := checker_grid, moved := True, over := True,
             history := [\<lparr>snap_grid = last_gap_grid, snap_score = 100\<rparr>]\<rparr>)) = True \<and>
   grid (fst (snd (undo (last_gap_game\<lparr>grid := checker_grid, moved := True, over := True,
             history := [\<lparr>snap_grid = last_gap_grid, snap_score = 100\<rparr>]\<rparr>)))) = last_gap_grid \<and>
   score (fst (snd (undo (last_gap_game\<lparr>grid := checker_grid, moved := True, over := True,
             history := [\<lparr>snap_grid = last_gap_grid, snap_score = 100\<rparr>]\<rparr>)))) = 100 \<and>
   \<not> over (fst (snd (undo (last_gap_game\<lparr>grid := checker_grid, moved := True, over := True,
             history := [\<lparr>snap_grid = last_gap_grid, snap_score = 100\<rparr>]\<rparr>))))"
proof -
  have h: "move Left (0, True) last_gap_game =
     Inr (Some True,
          last_gap_game\<lparr>grid := checker_grid, moved := True, over := True,
             history := [\<lparr>snap_grid = last_gap_grid, snap_score = 100\<rparr>]\<rparr>,
          [PlaySound SndMove, OnUpdate checker_grid 100 (InfoMerged []), OnGameOver 100])"
    by code_simp
  have m: "0 < maxHistorySize last_gap_game"
    by (simp add: last_gap_game_def blank_def)
  have g: "grid last_gap_game = last_gap_grid" "score last_gap_game = 100"
    by (simp_all add: last_gap_game_def blank_def)
  from undo_after_move[OF h m] h g show ?thesis by simp
qed

section \<open>Loss detection\<close>

lemma gameOverCols_iff:
  "gameOverCols n g i j =
     (\<forall>j' \<in> {j..<n}. \<not> (j' + 1 < n \<and> g ! i ! j' = g ! i ! (j' + 1)) \<and>
                      \<not> (i + 1 < n \<and> g ! i ! j' = g ! (i + 1) ! j'))"
proof (induction n g i j rule: gameOverCols.induct)
  case (1 n g i j)
  show ?case
  proof (cases "j < n")
    case False
    then show ?thesis by (simp add: gameOverCols.simps)
  next
    case True
    then have split: "{j..<n} = insert j {j + 1..<n}" by auto
    show ?thesis
    proof (cases "(j < n - 1 \<and> g ! i ! j = g ! i ! (j + 1)) \<or> (i < n - 1 \<and> g ! i ! j = g ! (i + 1) ! j)")
      case bad: True
      then have "\<not> gameOverCols n g i j"
        using True by (subst gameOverCols.simps) auto
      moreover from bad have "(j + 1 < n \<and> g ! i ! j = g ! i ! (j + 1)) \<or> (i + 1 < n \<and> g ! i ! j = g ! (i + 1) ! j)"
        by auto
      ultimately show ?thesis using True by (subst split) auto
    next
      case ok: False
      then have a: "\<not> (j < n - 1 \<and> g ! i ! j = g ! i ! (j + 1))"
        and b: "\<not> (i < n - 1 \<and> g ! i ! j = g ! (i + 1) ! j)" by auto
      have "gameOverCols n g i j = gameOverCols n g i (j + 1)"
        using True a b by (subst gameOverCols.simps) auto
      also note "1.IH"[OF True a b]
      finally show ?thesis
        using a b by (subst split) auto
    qed
  qed
qed



lemma gameOverRows_iff:
  "gameOverRows n g i = (\<forall>i' \<in> {i..<n}. gameOverCols n g i' 0)"
proof (induction n g i rule: gameOverRows.induct)
  case (1 n g i)
  show ?case
  proof (cases "i < n")
    case False
    then show ?thesis by (simp add: gameOverRows.simps)
  next
    case True
    then have split: "{i..<n} = insert i {i + 1..<n}" by auto
    show ?thesis
    proof (cases "gameOverCols n g i 0")
      case False
      then have "\<not> gameOverRows n g i"
        using True by (subst gameOverRows.simps) simp
      with False show ?thesis by (subst split) simp
    next
      case ok: True
      then have "gameOverRows n g i = gameOverRows n g (i + 1)"
        using True by (subst gameOverRows.simps) simp
      also note "1.IH"[OF True ok]
      finally show ?thesis using ok by (subst split) simp
    qed
  qed
qed


lemma gameOverRows_spec: "gameOverRows n g 0 \<longleftrightarrow> \<not> has_equal_neighbours n g"
  unfolding gameOverRows_iff gameOverCols_iff has_equal_neighbours_def
  by blast

lemma has_empty_cell_code: "has_empty_cell g = list_ex (\<lambda>row. 0 \<in> set row) g"
  unfolding has_empty_cell_def list_ex_iff by blast

text \<open>
  C7. On a \<open>size \<times> size\<close> grid, \<open>isGameOver\<close> returns true if and only if no cell is
  0 and no cell equals its right or lower neighbour. So a full grid with an equal adjacent
  pair is not lost.
\<close>

theorem isGameOver_iff:
  assumes "wf_grid n g"
  shows "isGameOver n g \<longleftrightarrow> \<not> has_empty_cell g \<and> \<not> has_equal_neighbours n g"
  by (simp add: isGameOver_def has_empty_cell_code gameOverRows_spec)



theorem isGameOver_iff_witness:
  "wf_grid 4 checker_grid \<and> isGameOver 4 checker_grid \<and>
   \<not> has_empty_cell checker_grid \<and> \<not> has_equal_neighbours 4 checker_grid \<and>
   wf_grid 4 [[2,4,2,4],[4,2,4,2],[2,4,2,4],[4,2,4,4]] \<and>
   \<not> has_empty_cell [[2,4,2,4],[4,2,4,2],[2,4,2,4],[4,2,4,4]] \<and>
   has_equal_neighbours 4 [[2,4,2,4],[4,2,4,2],[2,4,2,4],[4,2,4,4]] \<and>
   \<not> isGameOver 4 [[2,4,2,4],[4,2,4,2],[2,4,2,4],[4,2,4,4]]"
proof -
  have a: "wf_grid 4 checker_grid"
    by (simp add: wf_grid_def checker_grid_def)
  have b: "isGameOver 4 checker_grid"
    by code_simp
  have c: "wf_grid 4 [[2,4,2,4],[4,2,4,2],[2,4,2,4],[4,2,4,4]]"
    by (simp add: wf_grid_def)
  have d: "\<not> isGameOver 4 [[2,4,2,4],[4,2,4,2],[2,4,2,4],[4,2,4,4]]"
    by code_simp
  have e: "\<not> has_empty_cell [[2,4,2,4],[4,2,4,2],[2,4,2,4],[4,2,4,4]]"
    by (simp add: has_empty_cell_def)
  from isGameOver_iff[OF a] isGameOver_iff[OF c] a b c d e show ?thesis by blast
qed


section \<open>Grid shape and cell values are preserved\<close>

lemma grid_allI: "(\<And>row v. row \<in> set g \<Longrightarrow> v \<in> set row \<Longrightarrow> P v) \<Longrightarrow> grid_all P g"
  by (simp add: grid_all_def list_all_iff)

lemma grid_allD: "grid_all P g \<Longrightarrow> row \<in> set g \<Longrightarrow> v \<in> set row \<Longrightarrow> P v"
  by (simp add: grid_all_def list_all_iff)

lemma wf_gridD: "wf_grid n g \<Longrightarrow> length g = n" "wf_grid n g \<Longrightarrow> row \<in> set g \<Longrightarrow> length row = n"
  by (simp_all add: wf_grid_def list_all_iff)

lemma wf_gridI: "length g = n \<Longrightarrow> (\<And>row. row \<in> set g \<Longrightarrow> length row = n) \<Longrightarrow> wf_grid n g"
  by (simp add: wf_grid_def list_all_iff)

lemma transpose_grid_wf:
  assumes "wf_grid n g" and "0 < n"
  shows "transpose_grid g = Inr (map (\<lambda>c. map (\<lambda>row. row ! c) g) [0..<n])"
proof (cases g)
  case Nil
  with assms show ?thesis by (simp add: wf_grid_def)
next
  case (Cons r0 rs)
  with assms have "length r0 = n" by (simp add: wf_grid_def)
  with Cons show ?thesis by simp
qed

lemma wf_grid_columns:
  assumes "wf_grid n g"
  shows "wf_grid n (map (\<lambda>c. map (\<lambda>row. row ! c) g) [0..<n])"
  using assms by (intro wf_gridI) (auto dest: wf_gridD)

lemma grid_all_columns:
  assumes "wf_grid n g" and "grid_all P g"
  shows "grid_all P (map (\<lambda>c. map (\<lambda>row. row ! c) g) [0..<n])"
proof (rule grid_allI)
  fix col v
  assume "col \<in> set (map (\<lambda>c. map (\<lambda>row. row ! c) g) [0..<n])" and "v \<in> set col"
  then obtain c row where "c < n" "row \<in> set g" "v = row ! c" by auto
  moreover from this assms(1) have "c < length row" by (simp add: wf_gridD)
  ultimately show "P v" using assms(2) by (auto intro: grid_allD)
qed

lemma wf_grid_mirror: "wf_grid n g \<Longrightarrow> wf_grid n (map (\<lambda>row. rev row) g)"
  by (intro wf_gridI) (auto dest: wf_gridD)

lemma grid_all_mirror: "grid_all P g \<Longrightarrow> grid_all P (map (\<lambda>row. rev row) g)"
  by (intro grid_allI) (auto dest: grid_allD)

lemma rotateGrid_wf:
  assumes "wf_grid n g" and "0 < n" and "grid_all P g"
  shows "\<exists>g'. rotateGrid g d b = Inr g' \<and> wf_grid n g' \<and> grid_all P g'"
proof -
  let ?t = "map (\<lambda>c. map (\<lambda>row. row ! c) g) [0..<n]"
  have t: "transpose_grid g = Inr ?t"
    using assms(1,2) by (rule transpose_grid_wf)
  have wf_t: "wf_grid n ?t" using assms(1) by (rule wf_grid_columns)
  have all_t: "grid_all P ?t" using assms(1,3) by (rule grid_all_columns)
  show ?thesis
  proof (cases d)
    case Left
    with assms show ?thesis by simp
  next
    case Right
    with assms show ?thesis by (simp add: wf_grid_mirror grid_all_mirror)
  next
    case Up
    with t wf_t all_t show ?thesis by simp
  next
    case Down
    have "rotateGrid g d b = Inr (map (\<lambda>row. rev row) ?t)"
      using Down t by (simp only: rotateGrid.simps sum.case)
    moreover have "wf_grid n (map (\<lambda>row. rev row) ?t)"
      using wf_t by (rule wf_grid_mirror)
    moreover have "grid_all P (map (\<lambda>row. rev row) ?t)"
      using all_t by (rule grid_all_mirror)
    ultimately show ?thesis by blast
  qed
qed

lemma length_merged_row: "length (merged_row xs) \<le> length xs"
  by (induction xs rule: merged_row.induct) auto

lemma set_merged_row:
  "v \<in> set (merged_row xs) \<Longrightarrow> v \<in> set xs \<or> (\<exists>x \<in> set xs. v = x * 2)"
  by (induction xs rule: merged_row.induct) (auto split: if_splits)

lemma set_merged_values:
  "v \<in> set (merged_values xs) \<Longrightarrow> \<exists>x \<in> set xs. v = x * 2"
  by (induction xs rule: merged_values.induct) (auto split: if_splits)

lemma length_slide_row:
  assumes "length row \<le> n"
  shows "length (slide_row n row) = n"
proof -
  have "length (merged_row (filter (\<lambda>val. val \<noteq> 0) row)) \<le> length row"
    by (rule order_trans[OF length_merged_row length_filter_le])
  with assms show ?thesis by (simp add: slide_row_def Let_def)
qed

lemma set_slide_row:
  assumes "v \<in> set (slide_row n row)"
  shows "v = 0 \<or> v \<in> set row \<or> (\<exists>x \<in> set row. x \<noteq> 0 \<and> v = x * 2)"
proof -
  from assms have "v = 0 \<or> v \<in> set (merged_row (filter (\<lambda>val. val \<noteq> 0) row))"
    by (auto simp: slide_row_def Let_def)
  then show ?thesis by (auto dest!: set_merged_row)
qed

lemma wf_grid_slide: "wf_grid n g \<Longrightarrow> wf_grid n (map (slide_row n) g)"
  by (intro wf_gridI) (auto dest: wf_gridD simp: length_slide_row)

lemma grid_all_slide:
  assumes "tile_closed P" and "grid_all P g"
  shows "grid_all P (map (slide_row n) g)"
proof (rule grid_allI)
  fix row' v
  assume "row' \<in> set (map (slide_row n) g)" and v: "v \<in> set row'"
  then obtain row where row: "row \<in> set g" "row' = slide_row n row" by auto
  from set_slide_row[OF v[unfolded row(2)]] show "P v"
    using assms row(1) by (auto simp: tile_closed_def dest: grid_allD)
qed


lemma wf_grid_update:
  assumes "wf_grid n g"
  shows "wf_grid n (g[i := (g ! i)[j := v]])"
proof (cases "i < length g")
  case False
  with assms show ?thesis by (simp add: list_update_beyond)
next
  case True
  show ?thesis
  proof (rule wf_gridI)
    show "length (g[i := (g ! i)[j := v]]) = n"
      using assms by (simp add: wf_gridD)
    fix row assume "row \<in> set (g[i := (g ! i)[j := v]])"
    then have "row = (g ! i)[j := v] \<or> row \<in> set g"
      using set_update_subset_insert[of g i "(g ! i)[j := v]"] by auto
    moreover from True have "g ! i \<in> set g" by simp
    ultimately show "length row = n"
      using assms by (auto dest: wf_gridD)
  qed
qed

lemma grid_all_update:
  assumes "grid_all P g" and "P v"
  shows "grid_all P (g[i := (g ! i)[j := v]])"
proof (cases "i < length g")
  case False
  with assms show ?thesis by (simp add: list_update_beyond)
next
  case True
  show ?thesis
  proof (rule grid_allI)
    fix row x assume "row \<in> set (g[i := (g ! i)[j := v]])" and x: "x \<in> set row"
    then have "row = (g ! i)[j := v] \<or> row \<in> set g"
      using set_update_subset_insert[of g i "(g ! i)[j := v]"] by auto
    then show "P x"
    proof
      assume "row \<in> set g"
      with assms(1) x show ?thesis by (auto dest: grid_allD)
    next
      assume "row = (g ! i)[j := v]"
      with x have "x = v \<or> x \<in> set (g ! i)"
        using set_update_subset_insert[of "g ! i" j v] by auto
      moreover from True have "g ! i \<in> set g" by simp
      ultimately show ?thesis
        using assms by (auto dest: grid_allD)
    qed
  qed
qed

lemma addRandomTile_grid:
  "grid (addRandomTile r st) = grid st \<or>
   (\<exists>i j v. (v = 2 \<or> v = 4) \<and>
      grid (addRandomTile r st) = (grid st)[i := (grid st ! i)[j := v]])"
  by (auto simp: addRandomTile_def Let_def split: prod.splits)

lemma wf_grid_addRandomTile:
  "wf_grid n (grid st) \<Longrightarrow> wf_grid n (grid (addRandomTile r st))"
  using addRandomTile_grid[of r st] by (auto intro: wf_grid_update)

lemma grid_all_addRandomTile:
  "tile_closed P \<Longrightarrow> grid_all P (grid st) \<Longrightarrow> grid_all P (grid (addRandomTile r st))"
  using addRandomTile_grid[of r st] by (auto intro: grid_all_update simp: tile_closed_def)

lemma hist_ok_saveState:
  assumes "game_ok P st"
  shows "list_all (\<lambda>s. wf_grid (gsize st) (snap_grid s) \<and> grid_all P (snap_grid s))
           (history (saveState st))"
proof -
  let ?Q = "\<lambda>s. wf_grid (gsize st) (snap_grid s) \<and> grid_all P (snap_grid s)"
  let ?h = "history st @ [\<lparr>snap_grid = grid st, snap_score = score st\<rparr>]"
  from assms have all: "list_all ?Q ?h"
    by (simp add: game_ok_def hist_ok_def)
  then have "list_all ?Q (tl ?h)"
    by (cases ?h) simp_all
  with all show ?thesis
    by (simp add: saveState_def Let_def del: list_all_append tl_append2)
qed

lemma game_ok_undo:
  assumes "game_ok P st"
  shows "game_ok P (fst (snd (undo st)))"
proof (cases "history st = []")
  case True
  with assms show ?thesis by (simp add: undo_def)
next
  case False
  let ?Q = "\<lambda>s. wf_grid (gsize st) (snap_grid s) \<and> grid_all P (snap_grid s)"
  from assms have all: "list_all ?Q (history st)" and pos: "0 < gsize st"
    by (simp_all add: game_ok_def hist_ok_def)
  from all False have "?Q (last (history st))"
    by (simp add: list_all_iff)
  moreover from all have "list_all ?Q (butlast (history st))"
    by (auto simp: list_all_iff dest: in_set_butlastD)
  ultimately show ?thesis
    using False pos by (simp add: undo_def Let_def game_ok_def hist_ok_def)
qed


lemma game_ok_staged:
  assumes "game_ok P st" and "wf_grid (gsize st) g'" and "grid_all P g'"
  shows "game_ok P (staged st rg g')"
  using assms hist_ok_saveState[OF assms(1)]
  by (simp add: game_ok_def hist_ok_def)

lemma game_ok_move_commit:
  assumes "tile_closed P" and "game_ok P st"
  shows "game_ok P (fst (move_commit r mg st))"
  using assms
  by (simp add: game_ok_def hist_ok_def wf_grid_addRandomTile grid_all_addRandomTile)

lemma game_ok_move:
  assumes "tile_closed P" and "game_ok P st"
  obtains res st' evs where "move d r st = Inr (res, st', evs)" "game_ok P st'"
proof (cases "over st")
  case True
  then have "move d r st = Inr (None, st, [])" by (simp add: move_def)
  then show thesis using assms(2) by (rule that)
next
  case False
  from assms(2) have wf: "wf_grid (gsize st) (grid st)" and pos: "0 < gsize st"
    and all: "grid_all P (grid st)"
    by (simp_all add: game_ok_def hist_ok_def)
  from rotateGrid_wf[OF wf pos all, of d False]
  obtain rg where rg: "rotateGrid (grid st) d False = Inr rg"
    and wf_rg: "wf_grid (gsize st) rg" and all_rg: "grid_all P rg"
    by blast
  let ?mg = "map (slide_row (gsize st)) rg"
  have wf_mg: "wf_grid (gsize st) ?mg" using wf_rg by (rule wf_grid_slide)
  have all_mg: "grid_all P ?mg" using assms(1) all_rg by (rule grid_all_slide)
  from rotateGrid_wf[OF wf_mg pos all_mg, of d True]
  obtain g' where g': "rotateGrid ?mg d True = Inr g'"
    and wf_g': "wf_grid (gsize st) g'" and all_g': "grid_all P g'"
    by blast
  have ok: "game_ok P (staged st rg g')"
    using assms(2) wf_g' all_g' by (rule game_ok_staged)
  show thesis
  proof (cases "moved (staged st rg g')")
    case True
    show thesis
    proof (rule that)
      show "move d r st =
          Inr (Some True, fst (move_commit r (merged_entries 0 rg) (staged st rg g')),
               merge_sound st rg @ snd (move_commit r (merged_entries 0 rg) (staged st rg g')))"
        using True by (simp add: move_eq[OF False rg g'])
      show "game_ok P (fst (move_commit r (merged_entries 0 rg) (staged st rg g')))"
        using assms(1) ok by (rule game_ok_move_commit)
    qed
  next
    case no: False
    show thesis
    proof (rule that)
      show "move d r st = Inr (Some False, staged st rg g', [])"
        using no by (simp add: move_eq[OF False rg g'])
      show "game_ok P (staged st rg g')" by (rule ok)
    qed
  qed
qed

lemma wf_grid_replicate: "wf_grid n (replicate n (replicate n 0))"
  by (simp add: wf_grid_def list_all_iff)

lemma grid_all_replicate: "P 0 \<Longrightarrow> grid_all P (replicate n (replicate m 0))"
  by (simp add: grid_all_def list_all_iff)

lemma init_fields [simp]:
  "gsize (init r1 r2 st) = gsize st"
  "history (init r1 r2 st) = history st"
  "won (init r1 r2 st) = False"
  "over (init r1 r2 st) = False"
  "score (init r1 r2 st) = 0"
  by (simp_all add: init_def)

lemma game_ok_init:
  assumes "tile_closed P" and "hist_ok P st"
  shows "game_ok P (init r1 r2 st)"
proof -
  let ?s0 = "st\<lparr>grid := replicate (gsize st) (replicate (gsize st) 0),
               score := 0, won := False, over := False\<rparr>"
  from assms(1) have p0: "P 0" by (simp add: tile_closed_def)
  have "wf_grid (gsize st) (grid (addRandomTile r1 ?s0))"
    using wf_grid_addRandomTile[of "gsize st" ?s0 r1] by (simp add: wf_grid_replicate)
  then have "wf_grid (gsize st) (grid (addRandomTile r2 (addRandomTile r1 ?s0)))"
    by (rule wf_grid_addRandomTile)
  then have wf: "wf_grid (gsize st) (grid (init r1 r2 st))"
    by (simp add: init_def)
  have "grid_all P (grid ?s0)" using p0 by (simp add: grid_all_replicate)
  with assms(1) have "grid_all P (grid (addRandomTile r1 ?s0))"
    by (rule grid_all_addRandomTile)
  with assms(1) have "grid_all P (grid (addRandomTile r2 (addRandomTile r1 ?s0)))"
    by (rule grid_all_addRandomTile)
  then have all: "grid_all P (grid (init r1 r2 st))"
    by (simp add: init_def)
  from wf all assms(2) show ?thesis
    by (simp add: game_ok_def hist_ok_def)
qed

lemma game_ok_run:
  assumes "tile_closed P" and "game_ok P st"
  shows "\<exists>st' evs. run ops st = Inr (st', evs) \<and> game_ok P st'"
  using assms(2)
proof (induction ops arbitrary: st)
  case Nil
  then show ?case by simp
next
  case (Cons x ops)
  show ?case
  proof (cases x)
    case (Move d r)
    from assms(1) Cons.prems obtain res st1 evs1 where
      m: "move d r st = Inr (res, st1, evs1)" and ok1: "game_ok P st1"
      by (rule game_ok_move)
    from Cons.IH[OF ok1] obtain st2 evs2 where
      "run ops st1 = Inr (st2, evs2)" "game_ok P st2" by blast
    with m Move show ?thesis by simp
  next
    case Undo
    obtain res st1 evs1 where u: "undo st = (res, st1, evs1)"
      by (cases "undo st") auto
    with game_ok_undo[OF Cons.prems] have ok1: "game_ok P st1" by simp
    from Cons.IH[OF ok1] obtain st2 evs2 where
      "run ops st1 = Inr (st2, evs2)" "game_ok P st2" by blast
    with u Undo show ?thesis by simp
  qed
qed


lemma tile_closed_tile_value: "tile_closed tile_value"
proof -
  have "tile_value 2" unfolding tile_value_def by (intro disjI2 exI[of _ 1]) simp
  moreover have "tile_value 4" unfolding tile_value_def by (intro disjI2 exI[of _ 2]) simp
  moreover have "tile_value (x * 2)" if "tile_value x" "x \<noteq> 0" for x
  proof -
    from that obtain k where "1 \<le> k" "x = 2 ^ k" by (auto simp: tile_value_def)
    then have "1 \<le> Suc k \<and> x * 2 = 2 ^ Suc k" by simp
    then show ?thesis unfolding tile_value_def by blast
  qed
  ultimately show ?thesis by (simp add: tile_closed_def tile_value_def)
qed

lemma tile_closed_True: "tile_closed (\<lambda>_. True)"
  by (simp add: tile_closed_def)

lemma tile_closed_nonneg: "tile_closed (\<lambda>v. 0 \<le> v)"
  by (simp add: tile_closed_def)

section \<open>Tile values\<close>

text \<open>
  C9. Let \<open>st\<close> be the engine just before \<open>init()\<close> runs: the fresh object inside the
  constructor (its history is empty) or the engine at the end of an earlier game, with a
  positive size and snapshots that are \<open>size \<times> size\<close> grids of tile values. After
  \<open>init()\<close> and any sequence of \<open>move\<close> and \<open>undo\<close> calls, whatever the spawner
  draws, every call returns normally and every cell of the grid is 0 or a power of two
  that is at least 2; the snapshots are again of this kind, so the same holds after the
  next \<open>init()\<close>.
\<close>

theorem tiles_are_powers_of_two:
  assumes "hist_ok tile_value st"
  shows "\<exists>st' evs. run ops (init r1 r2 st) = Inr (st', evs) \<and>
           (\<forall>row \<in> set (grid st'). \<forall>v \<in> set row. v = 0 \<or> (\<exists>k. 1 \<le> k \<and> v = 2 ^ k)) \<and>
           hist_ok tile_value st'"
proof -
  have "game_ok tile_value (init r1 r2 st)"
    using tile_closed_tile_value assms by (rule game_ok_init)
  with tile_closed_tile_value
  have "\<exists>st' evs. run ops (init r1 r2 st) = Inr (st', evs) \<and> game_ok tile_value st'"
    by (rule game_ok_run)
  then obtain st' evs where r: "run ops (init r1 r2 st) = Inr (st', evs)"
    and ok: "game_ok tile_value st'" by blast
  from ok have "\<forall>row \<in> set (grid st'). \<forall>v \<in> set row. tile_value v"
    by (auto simp: game_ok_def dest: grid_allD)
  with r ok show ?thesis
    by (auto simp: game_ok_def tile_value_def)
qed


theorem tiles_are_powers_of_two_witness:
  "hist_ok tile_value blank \<and>
   (case run [Move Right (0, True), Move Up (1, False), Undo, Move Down (2, True),
              Move Left (5, True)] (init (0, True) (3, False) blank) of
      Inl e \<Rightarrow> None
    | Inr (st', evs) \<Rightarrow> Some (grid st'))
     = Some [[4, 2, 0, 0], [4, 0, 0, 0], [2, 0, 0, 0], [0, 0, 0, 0]] \<and>
   (\<exists>st' evs.
      run [Move Right (0, True), Move Up (1, False), Undo, Move Down (2, True),
           Move Left (5, True)] (init (0, True) (3, False) blank) = Inr (st', evs) \<and>
      (\<forall>row \<in> set (grid st'). \<forall>v \<in> set row. v = 0 \<or> (\<exists>k. 1 \<le> k \<and> v = 2 ^ k)) \<and>
      hist_ok tile_value st')"
proof -
  have h: "hist_ok tile_value blank"
    by (simp add: hist_ok_def blank_def)
  have ex: "(case run [Move Right (0, True), Move Up (1, False), Undo, Move Down (2, True),
              Move Left (5, True)] (init (0, True) (3, False) blank) of
      Inl e \<Rightarrow> None
    | Inr (st', evs) \<Rightarrow> Some (grid st'))
     = Some [[4, 2, 0, 0], [4, 0, 0, 0], [2, 0, 0, 0], [0, 0, 0, 0]]"
    by code_simp
  from tiles_are_powers_of_two[OF h,
      of "[Move Right (0, True), Move Up (1, False), Undo, Move Down (2, True),
           Move Left (5, True)]" "(0, True)" "(3, False)"]
    h ex
  show ?thesis by blast
qed

section \<open>The win callback\<close>

lemma count_OnWin_playSound [simp]: "count_list (playSound st s) OnWin = 0"
  by (simp add: playSound_def)

lemma count_OnWin_merge_sound [simp]: "count_list (merge_sound st rg) OnWin = 0"
  by (simp add: merge_sound_def)

lemma count_OnWin_move_commit:
  "count_list (snd (move_commit r mg st)) OnWin =
     (if \<not> won st \<and> hasValue (grid (addRandomTile r st)) 2048 \<and> onWin st then 1 else 0)"
  by (simp add: move_commit_events)

lemma move_onWin:
  assumes "move d r st = Inr (res, st', evs)"
  shows "count_list evs OnWin + (if won st' then 0 else 1) \<le> (if won st then 0 else (1::nat))"
proof (cases res)
  case None
  with assms have "st' = st \<and> evs = []" by (simp add: move_None)
  then show ?thesis by simp
next
  case (Some b)
  with assms have m: "move d r st = Inr (Some b, st', evs)" by simp
  show ?thesis
    by (rule move_SomeE[OF m]) (simp add: count_OnWin_move_commit)
qed

lemma undo_onWin:
  "count_list (snd (snd (undo st))) OnWin = 0 \<and> won (fst (snd (undo st))) = won st"
  by (simp add: undo_def Let_def)

lemma run_onWin:
  assumes "run ops st = Inr (st', evs)"
  shows "count_list evs OnWin + (if won st' then 0 else 1) \<le> (if won st then 0 else (1::nat))"
  using assms
proof (induction ops arbitrary: st evs)
  case Nil
  then show ?case by simp
next
  case (Cons x ops)
  show ?case
  proof (cases x)
    case (Move d r)
    with Cons.prems obtain res st1 evs1 evs2 where
      m: "move d r st = Inr (res, st1, evs1)" and r: "run ops st1 = Inr (st', evs2)"
      and e: "evs = evs1 @ evs2"
      by (auto split: sum.splits prod.splits)
    from move_onWin[OF m] Cons.IH[OF r] e show ?thesis
      by (simp split: if_splits)
  next
    case Undo
    obtain res st1 evs1 where u: "undo st = (res, st1, evs1)"
      by (cases "undo st") auto
    with Cons.prems Undo obtain evs2 where r: "run ops st1 = Inr (st', evs2)"
      and e: "evs = evs1 @ evs2"
      by (auto split: sum.splits prod.splits)
    from undo_onWin[of st] u Cons.IH[OF r] e show ?thesis
      by (simp split: if_splits)
  qed
qed

text \<open>
  C8. From any well-formed engine state, any sequence of \<open>move\<close> and \<open>undo\<close> calls
  returns normally and fires \<open>onWin\<close> at most once, and not at all when the flag \<open>won\<close>
  is already set (as it is after \<open>onWin\<close> has fired). In particular a session, which
  begins with \<open>init()\<close>, fires \<open>onWin\<close> at most once.
\<close>

theorem onWin_at_most_once:
  assumes "game_ok (\<lambda>v. True) st"
  shows "(\<exists>st' evs. run ops st = Inr (st', evs) \<and>
            count_list evs OnWin \<le> (if won st then 0 else 1)) \<and>
         (\<exists>st' evs. run ops (init r1 r2 st) = Inr (st', evs) \<and> count_list evs OnWin \<le> 1)"
proof
  from game_ok_run[OF tile_closed_True assms, of ops]
  obtain st' evs where r: "run ops st = Inr (st', evs)" by blast
  from run_onWin[OF r] have "count_list evs OnWin \<le> (if won st then 0 else 1)"
    by (simp split: if_splits)
  with r show "\<exists>st' evs. run ops st = Inr (st', evs) \<and>
            count_list evs OnWin \<le> (if won st then 0 else 1)" by blast
next
  from assms have "hist_ok (\<lambda>v. True) st" by (simp add: game_ok_def)
  with tile_closed_True have "game_ok (\<lambda>v. True) (init r1 r2 st)" by (rule game_ok_init)
  from game_ok_run[OF tile_closed_True this, of ops]
  obtain st' evs where r: "run ops (init r1 r2 st) = Inr (st', evs)" by blast
  from run_onWin[OF r] have "count_list evs OnWin \<le> 1"
    by (simp split: if_splits)
  with r show "\<exists>st' evs. run ops (init r1 r2 st) = Inr (st', evs) \<and> count_list evs OnWin \<le> 1"
    by blast
qed

theorem onWin_at_most_once_witness:
  "game_ok (\<lambda>v. True) win_ready \<and>
   (case run [Move Left (0, True), Undo, Move Left (0, True), Move Right (0, True)] win_ready of
      Inl e \<Rightarrow> None
    | Inr (st', evs) \<Rightarrow> Some (grid st', won st', count_list evs OnWin))
     = Some ([[2, 0, 2048, 2], [0, 0, 0, 0], [0, 0, 0, 0], [0, 0, 0, 0]], True, 1) \<and>
   (\<exists>st' evs.
      run [Move Left (0, True), Undo, Move Left (0, True), Move Right (0, True)] win_ready
        = Inr (st', evs) \<and>
      count_list evs OnWin \<le> (if won win_ready then 0 else 1)) \<and>
   (\<exists>st' evs.
      run [Move Left (0, True), Undo, Move Left (0, True), Move Right (0, True)]
        (init (0, True) (3, False) win_ready) = Inr (st', evs) \<and>
      count_list evs OnWin \<le> 1)"
proof -
  have ok: "game_ok (\<lambda>v. True) win_ready"
    by (simp add: game_ok_def hist_ok_def wf_grid_def grid_all_def win_ready_def blank_def)
  have ex: "(case run [Move Left (0, True), Undo, Move Left (0, True), Move Right (0, True)]
                win_ready of
      Inl e \<Rightarrow> None
    | Inr (st', evs) \<Rightarrow> Some (grid st', won st', count_list evs OnWin))
     = Some ([[2, 0, 2048, 2], [0, 0, 0, 0], [0, 0, 0, 0], [0, 0, 0, 0]], True, 1)"
    by code_simp
  from onWin_at_most_once[OF ok,
      of "[Move Left (0, True), Undo, Move Left (0, True), Move Right (0, True)]"
         "(0, True)" "(3, False)"]
    ok ex
  show ?thesis by blast
qed

section \<open>Score\<close>

lemma merged_entries_nonneg:
  assumes "grid_all (\<lambda>v. 0 \<le> v) g" and "m \<in> set (merged_entries ri g)"
  shows "0 \<le> m_value m"
  using assms
proof (induction g arbitrary: ri)
  case Nil
  then show ?case by simp
next
  case (Cons row g)
  from Cons.prems(1) have row: "\<forall>v \<in> set row. 0 \<le> v" and rest: "grid_all (\<lambda>v. 0 \<le> v) g"
    by (simp_all add: grid_all_def list_all_iff)
  from Cons.prems(2) consider
    v where "v \<in> set (merged_values (filter (\<lambda>val. val \<noteq> 0) row))" "m_value m = v"
    | "m \<in> set (merged_entries (ri + 1) g)"
    by auto
  then show ?case
  proof cases
    case 1
    from set_merged_values[OF 1(1)] row 1(2) show ?thesis by auto
  next
    case 2
    with Cons.IH[OF rest] show ?thesis by blast
  qed
qed

lemma sum_merged_entries_nonneg:
  assumes "grid_all (\<lambda>v. 0 \<le> v) g"
  shows "0 \<le> sum_list (map m_value (merged_entries ri g))"
  by (rule sum_list_nonneg) (auto dest: merged_entries_nonneg[OF assms])

lemma length_merged:
  "length (merged_row xs) + length (merged_values xs) = length xs"
  by (induction xs rule: merged_row.induct) auto

lemma merged_row_nonzero: "0 \<notin> set xs \<Longrightarrow> 0 \<notin> set (merged_row xs)"
  by (induction xs rule: merged_row.induct) auto

lemma tile_count_slide_row:
  "length (filter (\<lambda>v. v \<noteq> 0) (slide_row n row))
     + length (merged_values (filter (\<lambda>v. v \<noteq> 0) row))
   = length (filter (\<lambda>v. v \<noteq> 0) row)"
proof -
  let ?nz = "filter (\<lambda>v. v \<noteq> 0) row"
  have "0 \<notin> set (merged_row ?nz)" by (rule merged_row_nonzero) simp
  then have "filter (\<lambda>v. v \<noteq> 0) (merged_row ?nz) = merged_row ?nz"
    by (intro filter_True) auto
  then have "filter (\<lambda>v. v \<noteq> 0) (slide_row n row) = merged_row ?nz"
    by (simp add: slide_row_def Let_def)
  then show ?thesis by (simp add: length_merged)
qed

lemma tile_count_slide:
  "tile_count (map (slide_row n) g) + length (merged_entries ri g) = tile_count g"
proof (induction g arbitrary: ri)
  case Nil
  show ?case by (simp add: tile_count_def)
next
  case (Cons row g)
  from Cons.IH[of "ri + 1"] tile_count_slide_row[of n row] show ?case
    by (simp add: tile_count_def)
qed

lemma sum_merged_values: "sum_list (merged_values xs) = spec_gain xs"
  by (induction xs rule: merged_values.induct) auto

lemma sum_merged_entries:
  "sum_list (map m_value (merged_entries ri g)) = spec_score_delta g"
proof (induction g arbitrary: ri)
  case Nil
  show ?case by (simp add: spec_score_delta_def)
next
  case (Cons row g)
  have "map m_value (map (\<lambda>v. \<lparr>m_row = ri, m_value = v\<rparr>)
          (merged_values (filter (\<lambda>val. val \<noteq> 0) row)))
        = merged_values (filter (\<lambda>val. val \<noteq> 0) row)"
    by (simp add: comp_def)
  with Cons.IH[of "ri + 1"] show ?case
    by (simp add: spec_score_delta_def sum_merged_values)
qed

lemma merged_entries_double:
  assumes "m \<in> set (merged_entries ri g)"
  shows "\<exists>row \<in> set g. \<exists>x \<in> set row. x \<noteq> 0 \<and> m_value m = 2 * x"
  using assms
proof (induction g arbitrary: ri)
  case Nil
  then show ?case by simp
next
  case (Cons row g)
  from Cons.prems consider
    v where "v \<in> set (merged_values (filter (\<lambda>val. val \<noteq> 0) row))" "m_value m = v"
    | "m \<in> set (merged_entries (ri + 1) g)"
    by auto
  then show ?case
  proof cases
    case 1
    from set_merged_values[OF 1(1)] 1(2) show ?thesis by auto
  next
    case 2
    with Cons.IH show ?thesis by auto
  qed
qed

lemma sum_list_merged_row: "sum_list (merged_row xs) = sum_list xs"
  by (induction xs rule: merged_row.induct) auto

lemma sum_list_nonzero: "sum_list (filter (\<lambda>v. v \<noteq> 0) xs) = sum_list (xs :: int list)"
  by (induction xs) auto

lemma sum_list_zeros: "sum_list (replicate k (0::int)) = 0"
  by (induction k) simp_all

lemma sum_list_slide_row: "sum_list (slide_row n row) = sum_list row"
  by (simp add: slide_row_def Let_def sum_list_merged_row sum_list_nonzero sum_list_zeros)

lemma sum_list_slide: "sum_list (concat (map (slide_row n) g)) = sum_list (concat g)"
  by (induction g) (simp_all add: sum_list_slide_row)

text \<open>
  C5. On a \<open>size \<times> size\<close> grid, with cells and score in the range where the numbers
  of the engine are exact, if \<open>move(d)\<close> returns true then the score afterwards is the
  score before plus the score that the specification gives the rotated grid: for each
  pair of equal neighbours merged in the scan of a row's non-zero values, the value of
  the tile they merge into, counted once. This is the score \<open>moveLeft\<close> returns and the
  sum of the values in its list \<open>merged\<close>; every entry of the list is twice a non-zero
  tile of the rotated grid, the list has one entry for each tile that the merges remove,
  and the merges leave the sum of all cells unchanged.
\<close>

theorem score_conservation:
  assumes "wf_grid (gsize st) (grid st)" and "0 < gsize st"
    and "safe_numbers st"
    and "move d r st = Inr (Some True, st', evs)"
  shows "\<exists>rg movedGrid addedScore mg mv.
           rotateGrid (grid st) d False = Inr rg \<and>
           moveLeft (gsize st) False rg = (movedGrid, addedScore, mg, mv) \<and>
           score st' = score st + spec_score_delta rg \<and>
           addedScore = spec_score_delta rg \<and>
           sum_list (map m_value mg) = spec_score_delta rg \<and>
           (\<forall>m \<in> set mg. \<exists>row \<in> set rg. \<exists>x \<in> set row. x \<noteq> 0 \<and> m_value m = 2 * x) \<and>
           length mg + tile_count movedGrid = tile_count rg \<and>
           sum_list (concat movedGrid) = sum_list (concat rg)"
proof (rule move_SomeE[OF assms(4)])
  fix rg g'
  assume rg: "rotateGrid (grid st) d False = Inr rg"
    and st': "st' = (if True then fst (move_commit r (merged_entries 0 rg) (staged st rg g'))
                     else staged st rg g')"
  from assms(3) have nonneg: "grid_all (\<lambda>v. 0 \<le> v) (grid st)"
    by (simp add: safe_numbers_def)
  from rotateGrid_wf[OF assms(1,2) nonneg, of d False] rg
  have "grid_all (\<lambda>v. 0 \<le> v) rg" by auto
  then have "0 \<le> sum_list (map m_value (merged_entries 0 rg))"
    by (rule sum_merged_entries_nonneg)
  moreover from st' have "score st' = score (staged st rg g')" by simp
  ultimately have "score st' = score st + sum_list (map m_value (merged_entries 0 rg))"
    by (simp add: staged_score)
  then have sc: "score st' = score st + spec_score_delta rg"
    by (simp only: sum_merged_entries)
  have ml: "moveLeft (gsize st) False rg =
      (map (slide_row (gsize st)) rg, spec_score_delta rg, merged_entries 0 rg,
       (\<exists>row \<in> set rg. row \<noteq> slide_row (gsize st) row) \<or> merged_entries 0 rg \<noteq> [])"
    by (simp add: moveLeft_eq sum_merged_entries)
  have sm: "sum_list (map m_value (merged_entries 0 rg)) = spec_score_delta rg"
    by (rule sum_merged_entries)
  have db: "\<forall>m \<in> set (merged_entries 0 rg).
              \<exists>row \<in> set rg. \<exists>x \<in> set row. x \<noteq> 0 \<and> m_value m = 2 * x"
    by (blast dest: merged_entries_double)
  have tc: "length (merged_entries 0 rg) + tile_count (map (slide_row (gsize st)) rg)
              = tile_count rg"
    using tile_count_slide[of "gsize st" rg 0] by simp
  have ms: "sum_list (concat (map (slide_row (gsize st)) rg)) = sum_list (concat rg)"
    by (rule sum_list_slide)
  from rg ml sc sm db tc ms show ?thesis by blast
qed

theorem score_conservation_witness:
  "wf_grid (gsize merge_game) (grid merge_game) \<and> 0 < gsize merge_game \<and>
   safe_numbers merge_game \<and>
   move Left (0, True) merge_game =
     Inr (Some True,
          merge_game\<lparr>grid := [[4,8,2,0],[0,0,0,0],[16,0,0,0],[0,0,0,0]], score := 38,
             moved := True,
             history := [\<lparr>snap_grid = [[2,2,4,4],[0,0,0,0],[8,0,8,0],[0,0,0,0]],
                          snap_score = 10\<rparr>]\<rparr>,
          [PlaySound SndMerge, PlaySound SndMove,
           OnUpdate [[4,8,2,0],[0,0,0,0],[16,0,0,0],[0,0,0,0]] 38
             (InfoMerged [\<lparr>m_row = 0, m_value = 4\<rparr>, \<lparr>m_row = 0, m_value = 8\<rparr>,
                          \<lparr>m_row = 2, m_value = 16\<rparr>])]) \<and>
   spec_score_delta [[2,2,4,4],[0,0,0,0],[8,0,8,0],[0,0,0,0]] = 28 \<and>
   (\<exists>rg movedGrid addedScore mg mv.
      rotateGrid (grid merge_game) Left False = Inr rg \<and>
      moveLeft (gsize merge_game) False rg = (movedGrid, addedScore, mg, mv) \<and>
      (38::int) = score merge_game + spec_score_delta rg \<and>
      addedScore = spec_score_delta rg \<and>
      sum_list (map m_value mg) = spec_score_delta rg \<and>
      (\<forall>m \<in> set mg. \<exists>row \<in> set rg. \<exists>x \<in> set row. x \<noteq> 0 \<and> m_value m = 2 * x) \<and>
      length mg + tile_count movedGrid = tile_count rg \<and>
      sum_list (concat movedGrid) = sum_list (concat rg))"
proof -
  have a: "wf_grid (gsize merge_game) (grid merge_game)"
    by (simp add: merge_game_def blank_def wf_grid_def)
  have b: "0 < gsize merge_game"
    by (simp add: merge_game_def blank_def)
  have c: "safe_numbers merge_game"
    by (simp add: safe_numbers_def merge_game_def blank_def grid_all_def)
  have h: "move Left (0, True) merge_game =
     Inr (Some True,
          merge_game\<lparr>grid := [[4,8,2,0],[0,0,0,0],[16,0,0,0],[0,0,0,0]], score := 38,
             moved := True,
             history := [\<lparr>snap_grid = [[2,2,4,4],[0,0,0,0],[8,0,8,0],[0,0,0,0]],
                          snap_score = 10\<rparr>]\<rparr>,
          [PlaySound SndMerge, PlaySound SndMove,
           OnUpdate [[4,8,2,0],[0,0,0,0],[16,0,0,0],[0,0,0,0]] 38
             (InfoMerged [\<lparr>m_row = 0, m_value = 4\<rparr>, \<lparr>m_row = 0, m_value = 8\<rparr>,
                          \<lparr>m_row = 2, m_value = 16\<rparr>])])"
    by code_simp
  have e: "spec_score_delta [[2,2,4,4],[0,0,0,0],[8,0,8,0],[0,0,0,0]] = 28"
    by (simp add: spec_score_delta_def)
  from score_conservation[OF a b c h] have
    "\<exists>rg movedGrid addedScore mg mv.
      rotateGrid (grid merge_game) Left False = Inr rg \<and>
      moveLeft (gsize merge_game) False rg = (movedGrid, addedScore, mg, mv) \<and>
      (38::int) = score merge_game + spec_score_delta rg \<and>
      addedScore = spec_score_delta rg \<and>
      sum_list (map m_value mg) = spec_score_delta rg \<and>
      (\<forall>m \<in> set mg. \<exists>row \<in> set rg. \<exists>x \<in> set row. x \<noteq> 0 \<and> m_value m = 2 * x) \<and>
      length mg + tile_count movedGrid = tile_count rg \<and>
      sum_list (concat movedGrid) = sum_list (concat rg)"
    by simp
  with a b c h e show ?thesis by blast
qed

section \<open>Orientation and unchanged moves for left, right and up\<close>

lemma columns_columns:
  assumes "wf_grid n g"
  shows "map (\<lambda>c. map (\<lambda>row. row ! c) (map (\<lambda>c. map (\<lambda>row. row ! c) g) [0..<n])) [0..<n] = g"
proof (rule nth_equalityI)
  show "length (map (\<lambda>c. map (\<lambda>row. row ! c) (map (\<lambda>c. map (\<lambda>row. row ! c) g) [0..<n])) [0..<n])
          = length g"
    using assms by (simp add: wf_gridD)
next
  fix i
  assume "i < length (map (\<lambda>c. map (\<lambda>row. row ! c) (map (\<lambda>c. map (\<lambda>row. row ! c) g) [0..<n])) [0..<n])"
  then have i: "i < n" by simp
  with assms have ig: "i < length g" by (simp add: wf_gridD)
  then have "g ! i \<in> set g" by simp
  with assms have len: "length (g ! i) = n" by (rule wf_gridD)
  have "map (\<lambda>c. map (\<lambda>row. row ! c) (map (\<lambda>c. map (\<lambda>row. row ! c) g) [0..<n])) [0..<n] ! i
        = map (\<lambda>c. g ! i ! c) [0..<n]"
    using i ig by simp
  also have "\<dots> = g ! i"
    using map_nth[of "g ! i"] by (simp only: len)
  finally show "map (\<lambda>c. map (\<lambda>row. row ! c) (map (\<lambda>c. map (\<lambda>row. row ! c) g) [0..<n])) [0..<n] ! i
        = g ! i" .
qed

text \<open>
  For Left, Right and Up the transform is its own inverse on a \<open>size \<times> size\<close> grid;
  Down (transposition followed by mirroring) is the one direction where it is not.
\<close>

lemma rotateGrid_twice_restores:
  assumes "wf_grid n g" and "0 < n" and "d \<noteq> Down"
  shows "\<exists>g1. rotateGrid g d False = Inr g1 \<and> rotateGrid g1 d True = Inr g"
proof (cases d)
  case Left
  then show ?thesis by simp
next
  case Right
  then show ?thesis by (simp add: comp_def)
next
  case Up
  let ?t = "map (\<lambda>c. map (\<lambda>row. row ! c) g) [0..<n]"
  have "transpose_grid g = Inr ?t" using assms(1,2) by (rule transpose_grid_wf)
  moreover have "transpose_grid ?t = Inr g"
    using transpose_grid_wf[OF wf_grid_columns[OF assms(1)] assms(2)]
    by (simp only: columns_columns[OF assms(1)])
  ultimately show ?thesis using Up by simp
next
  case Down
  with assms(3) show ?thesis by simp
qed

text \<open>
  So a call of \<open>move\<close> in one of these three directions that returns false leaves grid
  and score as they were.
\<close>

lemma move_noop_keeps_grid:
  assumes "wf_grid (gsize st) (grid st)" and "0 < gsize st" and "d \<noteq> Down"
    and "move d r st = Inr (Some False, st', evs)"
  shows "grid st' = grid st \<and> score st' = score st"
proof (rule move_SomeE[OF assms(4)])
  fix rg g'
  assume rg: "rotateGrid (grid st) d False = Inr rg"
    and g': "rotateGrid (map (slide_row (gsize st)) rg) d True = Inr g'"
    and b: "False = moved (staged st rg g')"
    and st': "st' = (if False then fst (move_commit r (merged_entries 0 rg) (staged st rg g'))
                     else staged st rg g')"
  from b have same: "\<forall>row \<in> set rg. row = slide_row (gsize st) row"
    and none: "merged_entries 0 rg = []"
    by (simp_all add: staged_moved)
  from same have "map (slide_row (gsize st)) rg = rg"
    by (simp add: map_idI)
  with g' have again: "rotateGrid rg d True = Inr g'" by simp
  from rotateGrid_twice_restores[OF assms(1,2,3)] rg have "rotateGrid rg d True = Inr (grid st)"
    by auto
  with again have "g' = grid st" by simp
  with st' none show ?thesis by (simp add: staged_score)
qed

end
